theory Spec2Isabelle
  imports Complex_Main
begin

section \<open>The pipe input device of Pipes.cpp\<close>

text \<open>
  A shallow embedding of \<^verbatim>\<open>Source/Core/InputCommon/ControllerInterface/Pipes/Pipes.cpp\<close>.
  The device owns two \<^verbatim>\<open>std::map\<close>s from names to freshly allocated \<^verbatim>\<open>PipeInput\<close>
  objects; no object is reachable under two keys, so the maps hold the objects by value.
  A \<^verbatim>\<open>double\<close> (\<^verbatim>\<open>ControlState\<close>) is idealised as a real number: rounding, overflow
  and NaN are outside the model.
\<close>

subsection \<open>Data model\<close>

type_synonym ControlState = real

record PipeInput =
  m_name :: string
  m_state :: ControlState

record PipeDevice =
  m_buf :: string
  m_buttons :: "string \<rightharpoonup> PipeInput"
  m_axes :: "string \<rightharpoonup> PipeInput"

text \<open>
  The class \<^verbatim>\<open>PipeInput\<close> is declared in Pipes.h, which is not part of the sources at
  hand. Its constructor takes the name; the state a new input starts with is the
  parameter \<open>dflt\<close> of the constructor below and of everything that allocates an input.
\<close>

definition PipeInput_new :: "ControlState \<Rightarrow> string \<Rightarrow> PipeInput" where
  "PipeInput_new dflt name = \<lparr>m_name = name, m_state = dflt\<rparr>"

definition SetState :: "PipeInput \<Rightarrow> ControlState \<Rightarrow> PipeInput" where
  "SetState inp state = inp\<lparr>m_state := state\<rparr>"

definition GetState :: "PipeInput \<Rightarrow> ControlState" where
  "GetState inp = m_state inp"

definition s_button_tokens :: "string list" where
  "s_button_tokens =
     [''A'', ''B'', ''X'', ''Y'', ''Z'', ''START'', ''L'', ''R'',
      ''D_UP'', ''D_DOWN'', ''D_LEFT'', ''D_RIGHT'']"

definition s_shoulder_tokens :: "string list" where
  "s_shoulder_tokens = [''L'', ''R'']"

definition s_axis_tokens :: "string list" where
  "s_axis_tokens = [''MAIN'', ''C'']"

subsection \<open>Construction\<close>

definition AddAxis :: "ControlState \<Rightarrow> PipeDevice \<Rightarrow> string \<Rightarrow> real \<Rightarrow> PipeDevice" where
  "AddAxis dflt dev name val =
     (let ax_hi = SetState (PipeInput_new dflt (''Axis '' @ name @ '' +'')) val;
          ax_lo = SetState (PipeInput_new dflt (''Axis '' @ name @ '' -'')) val
      in dev\<lparr>m_axes := (m_axes dev)(name @ '' +'' \<mapsto> ax_hi, name @ '' -'' \<mapsto> ax_lo)\<rparr>)"

definition add_button :: "ControlState \<Rightarrow> string \<Rightarrow> PipeDevice \<Rightarrow> PipeDevice" where
  "add_button dflt tok dev =
     dev\<lparr>m_buttons := (m_buttons dev)(tok \<mapsto> PipeInput_new dflt (''Button '' @ tok))\<rparr>"

definition add_stick :: "ControlState \<Rightarrow> string \<Rightarrow> PipeDevice \<Rightarrow> PipeDevice" where
  "add_stick dflt tok dev =
     AddAxis dflt (AddAxis dflt dev (tok @ '' X'') 0.5) (tok @ '' Y'') 0.5"

text \<open>
  The constructor: the three loops over the token arrays, started from a device with an
  empty buffer and empty maps.
\<close>

definition PipeDevice_new :: "ControlState \<Rightarrow> PipeDevice" where
  "PipeDevice_new dflt =
     (let dev0 = \<lparr>m_buf = [], m_buttons = Map.empty, m_axes = Map.empty\<rparr>;
          dev1 = fold (add_button dflt) s_button_tokens dev0;
          dev2 = fold (\<lambda>tok dev. AddAxis dflt dev tok 0.0) s_shoulder_tokens dev1;
          dev3 = fold (add_stick dflt) s_axis_tokens dev2
      in dev3)"

subsection \<open>Setting an axis\<close>

text \<open>
  Modelled from the spec: \<^verbatim>\<open>MathUtil::Clamp\<close> (Common/MathUtil.h, not among the sources):
  it clamps the value into the closed range between the two bounds.
\<close>

definition Clamp :: "real \<Rightarrow> real \<Rightarrow> real \<Rightarrow> real" where
  "Clamp val lo hi = max lo (min hi val)"

text \<open>The two locals \<^verbatim>\<open>hi\<close> and \<^verbatim>\<open>lo\<close> of \<^verbatim>\<open>SetAxis\<close>, as functions of the clamped value.\<close>

definition axis_hi :: "real \<Rightarrow> real" where
  "axis_hi v = max 0.0 (v - 0.5) * 2.0"

definition axis_lo :: "real \<Rightarrow> real" where
  "axis_lo v = (0.5 - min 0.5 v) * 2.0"

definition set_axis_half :: "PipeDevice \<Rightarrow> string \<Rightarrow> real \<Rightarrow> PipeDevice" where
  "set_axis_half dev key state =
     (case m_axes dev key of
        None \<Rightarrow> dev
      | Some inp \<Rightarrow> dev\<lparr>m_axes := (m_axes dev)(key \<mapsto> SetState inp state)\<rparr>)"

definition SetAxis :: "PipeDevice \<Rightarrow> string \<Rightarrow> real \<Rightarrow> PipeDevice" where
  "SetAxis dev entry val =
     (let v = Clamp val 0.0 1.0;
          hi = axis_hi v;
          lo = axis_lo v;
          dev1 = set_axis_half dev (entry @ '' +'') hi
      in set_axis_half dev1 (entry @ '' -'') lo)"

text \<open>What the host reads: the state stored under a key, if the key exists.\<close>

definition axis_state :: "PipeDevice \<Rightarrow> string \<Rightarrow> ControlState option" where
  "axis_state dev key = map_option GetState (m_axes dev key)"

definition button_state :: "PipeDevice \<Rightarrow> string \<Rightarrow> ControlState option" where
  "button_state dev key = map_option GetState (m_buttons dev key)"

subsection \<open>Parsing a command\<close>

text \<open>
  \<^verbatim>\<open>StringToDouble\<close> reads a \<^verbatim>\<open>double\<close> from a \<^verbatim>\<open>std::istringstream\<close> imbued with the
  classic locale. The extraction operator belongs to the C++ library; its model here
  skips leading white space and reads the longest decimal field
  \<^verbatim>\<open>[+-] digits [. digits] [(e|E) [+-] digits]\<close>. A field that is not a complete number
  (no digit in the mantissa, or an exponent mark without digits) makes the extraction
  fail, and a failed extraction stores zero. The value is the exact one the field
  denotes.
\<close>

definition isspace :: "char \<Rightarrow> bool" where
  "isspace c \<longleftrightarrow> c \<in> set [CHR '' '', CHR 0x09, CHR 0x0A, CHR 0x0B, CHR 0x0C, CHR 0x0D]"

definition isdigit :: "char \<Rightarrow> bool" where
  "isdigit c \<longleftrightarrow> c \<in> set ''0123456789''"

definition digit_value :: "char \<Rightarrow> nat" where
  "digit_value c = of_char c - 48"

definition decimal_value :: "string \<Rightarrow> nat" where
  "decimal_value ds = foldl (\<lambda>n c. 10 * n + digit_value c) 0 ds"

definition read_sign :: "string \<Rightarrow> bool \<times> string" where
  "read_sign s =
     (case s of
        [] \<Rightarrow> (False, s)
      | c # cs \<Rightarrow>
          if c = CHR ''-'' then (True, cs)
          else if c = CHR ''+'' then (False, cs)
          else (False, s))"

definition read_fraction :: "string \<Rightarrow> string \<times> string" where
  "read_fraction s =
     (case s of
        [] \<Rightarrow> ([], s)
      | c # cs \<Rightarrow>
          if c = CHR ''.'' then (takeWhile isdigit cs, dropWhile isdigit cs)
          else ([], s))"

definition read_exponent :: "string \<Rightarrow> int option" where
  "read_exponent s =
     (case s of
        [] \<Rightarrow> Some 0
      | c # cs \<Rightarrow>
          if c = CHR ''e'' \<or> c = CHR ''E'' then
            (let (neg, ds) = read_sign cs;
                 es = takeWhile isdigit ds
             in if es = [] then None
                else Some (if neg then - int (decimal_value es) else int (decimal_value es)))
          else Some 0)"

definition scale10 :: "real \<Rightarrow> int \<Rightarrow> real" where
  "scale10 m e = (if 0 \<le> e then m * 10 ^ nat e else m / 10 ^ nat (- e))"

definition stream_extract_double :: "string \<Rightarrow> real" where
  "stream_extract_double text =
     (let (neg, s1) = read_sign (dropWhile isspace text);
          ip = takeWhile isdigit s1;
          (fp, s3) = read_fraction (dropWhile isdigit s1);
          mant = real (decimal_value (ip @ fp)) / 10 ^ length fp
      in if ip = [] \<and> fp = [] then 0
         else (case read_exponent s3 of
                 None \<Rightarrow> 0
               | Some e \<Rightarrow> scale10 (if neg then - mant else mant) e))"

definition StringToDouble :: "string \<Rightarrow> real" where
  "StringToDouble text = stream_extract_double text"

text \<open>
  Modelled from the spec: \<^verbatim>\<open>SplitString\<close> (Common/StringUtil.h, not among the sources)
  splits the line into tokens at the separator, which \<^verbatim>\<open>ParseCommand\<close> passes as the
  blank character. The pieces between two separators are kept also when empty; a piece
  that would follow the last separator is produced only when it is not empty, so the
  empty line has no token. The general properties below speak about the token list,
  and the concrete lines they run have single blanks, so none of them rests on how
  empty pieces are treated.
\<close>

fun split_from :: "char \<Rightarrow> string \<Rightarrow> string \<Rightarrow> string list" where
  "split_from delim cur [] = (if cur = [] then [] else [cur])"
| "split_from delim cur (c # cs) =
     (if c = delim then cur # split_from delim [] cs
      else split_from delim (cur @ [c]) cs)"

definition SplitString :: "string \<Rightarrow> char \<Rightarrow> string list" where
  "SplitString str delim = split_from delim [] str"

definition press_or_release :: "PipeDevice \<Rightarrow> string list \<Rightarrow> PipeDevice" where
  "press_or_release dev tokens =
     (case m_buttons dev (tokens ! 1) of
        None \<Rightarrow> dev
      | Some btn \<Rightarrow>
          dev\<lparr>m_buttons := (m_buttons dev)
            (tokens ! 1 \<mapsto> SetState btn (if tokens ! 0 = ''PRESS'' then 1.0 else 0.0))\<rparr>)"

definition ParseCommand :: "PipeDevice \<Rightarrow> string \<Rightarrow> PipeDevice" where
  "ParseCommand dev command =
     (let tokens = SplitString command CHR '' '' in
      if length tokens < 2 \<or> length tokens > 4 then dev
      else if tokens ! 0 = ''PRESS'' \<or> tokens ! 0 = ''RELEASE'' then
        press_or_release dev tokens
      else if tokens ! 0 = ''SET'' then
        (if length tokens = 3 then
           (let val = StringToDouble (tokens ! 2)
            in SetAxis dev (tokens ! 1) ((val / 2.0) + 0.5))
         else if length tokens = 4 then
           (let x = StringToDouble (tokens ! 2);
                y = StringToDouble (tokens ! 3);
                dev1 = SetAxis dev (tokens ! 1 @ '' X'') x
            in SetAxis dev1 (tokens ! 1 @ '' Y'') y)
         else dev)
      else dev)"

subsection \<open>Polling: the byte-stream build\<close>

text \<open>
  The descriptor is non-blocking. \<open>reads\<close> lists the blocks of bytes that the successive
  calls of \<^verbatim>\<open>read\<close> deliver during one poll (each at most the 32 bytes of the local
  buffer); an empty block, like the end of the list, stands for a call that returns
  zero or less and ends the first loop.
\<close>

fun read_pending :: "string \<Rightarrow> string list \<Rightarrow> string" where
  "read_pending buf [] = buf"
| "read_pending buf (chunk # reads) =
     (if 0 < length chunk then read_pending (buf @ chunk) reads else buf)"

text \<open>\<^verbatim>\<open>std::string::find\<close> for a single character: the first position, or \<^verbatim>\<open>npos\<close>.\<close>

fun str_find :: "string \<Rightarrow> char \<Rightarrow> nat option" where
  "str_find [] c = None"
| "str_find (x # xs) c = (if x = c then Some 0 else map_option Suc (str_find xs c))"

function dequeue_commands :: "PipeDevice \<Rightarrow> PipeDevice" where
  "dequeue_commands dev =
     (case str_find (m_buf dev) CHR ''\<newline>'' of
        None \<Rightarrow> dev
      | Some newline \<Rightarrow>
          dequeue_commands
            ((ParseCommand dev (take newline (m_buf dev)))
               \<lparr>m_buf := drop (newline + 1)
                  (m_buf (ParseCommand dev (take newline (m_buf dev))))\<rparr>))"
  by pat_completeness auto
termination
proof (relation "measure (\<lambda>dev. length (m_buf dev))")
  show "wf (measure (\<lambda>dev. length (m_buf dev)))" by simp
next
  fix dev :: PipeDevice and newline :: nat
  assume found: "str_find (m_buf dev) CHR ''\<newline>'' = Some newline"
  have half: "m_buf (set_axis_half d k s) = m_buf d" for d k s
    by (simp add: set_axis_half_def split: option.splits)
  have axis: "m_buf (SetAxis d e v) = m_buf d" for d e v
    by (simp add: SetAxis_def Let_def half)
  have button: "m_buf (press_or_release d ts) = m_buf d" for d ts
    by (simp add: press_or_release_def split: option.splits)
  have keep: "m_buf (ParseCommand dev c) = m_buf dev" for c
    by (simp add: ParseCommand_def Let_def axis button)
  have "xs \<noteq> []" if "str_find xs c = Some n" for xs c n
    using that by (cases xs) auto
  then have "m_buf dev \<noteq> []" using found by blast
  then show "((ParseCommand dev (take newline (m_buf dev)))
               \<lparr>m_buf := drop (newline + 1)
                  (m_buf (ParseCommand dev (take newline (m_buf dev))))\<rparr>, dev)
             \<in> measure (\<lambda>dev. length (m_buf dev))"
    by (simp add: keep)
qed

definition UpdateInput :: "PipeDevice \<Rightarrow> string list \<Rightarrow> PipeDevice" where
  "UpdateInput dev reads = dequeue_commands (dev\<lparr>m_buf := read_pending (m_buf dev) reads\<rparr>)"

subsection \<open>Polling: the message build\<close>

text \<open>
  With \<^verbatim>\<open>USE_ZMQ\<close> the device pulls from a socket. The socket is the list of messages
  queued on it; a non-blocking receive takes the first one, and yields nothing when the
  queue is empty (the call returns a negative value, which changes no state).
\<close>

definition zmq_recvmsg :: "string list \<Rightarrow> string option \<times> string list" where
  "zmq_recvmsg sock = (case sock of [] \<Rightarrow> (None, []) | msg # rest \<Rightarrow> (Some msg, rest))"

function scan_message :: "PipeDevice \<Rightarrow> string \<Rightarrow> nat \<Rightarrow> nat \<Rightarrow> PipeDevice" where
  "scan_message dev data prev next =
     (if next < length data then
        (if data ! next = CHR ''\<newline>'' then
           scan_message (ParseCommand dev (take (next - prev) (drop prev data)))
             data (next + 1) (next + 1)
         else scan_message dev data prev (next + 1))
      else dev)"
  by pat_completeness auto
termination
  by (relation "measure (\<lambda>(dev, data, prev, next). length data - next)") auto

definition UpdateInput_ZMQ :: "PipeDevice \<Rightarrow> string list \<Rightarrow> PipeDevice \<times> string list" where
  "UpdateInput_ZMQ dev sock =
     (case zmq_recvmsg sock of
        (None, sock') \<Rightarrow> (dev, sock')
      | (Some data, sock') \<Rightarrow> (scan_message dev data 0 0, sock'))"

section \<open>Properties\<close>

subsection \<open>Helper lemmas\<close>

lemma plus_key_neq_minus_key: "entry @ '' +'' \<noteq> entry' @ '' -''"
proof
  assume "entry @ '' +'' = entry' @ '' -''"
  then have "last (entry @ '' +'') = last (entry' @ '' -'')" by simp
  then show False by simp
qed

lemma axis_state_set_axis_half:
  "axis_state (set_axis_half dev key s) k =
     (if k = key \<and> m_axes dev key \<noteq> None then Some s else axis_state dev k)"
  by (auto simp: axis_state_def set_axis_half_def GetState_def SetState_def
      split: option.splits)

lemma axis_state_SetAxis:
  "axis_state (SetAxis dev entry val) k =
     (if k = entry @ '' -'' \<and> m_axes dev k \<noteq> None then Some (axis_lo (Clamp val 0 1))
      else if k = entry @ '' +'' \<and> m_axes dev k \<noteq> None then Some (axis_hi (Clamp val 0 1))
      else axis_state dev k)"
proof -
  have dom_keep: "m_axes (set_axis_half dev (entry @ '' +'') s) (entry @ '' -'') = None
      \<longleftrightarrow> m_axes dev (entry @ '' -'') = None" for s
    using plus_key_neq_minus_key [of entry entry]
    by (auto simp: set_axis_half_def split: option.splits)
  have neq: "entry @ '' +'' \<noteq> entry @ '' -''"
    by (rule plus_key_neq_minus_key)
  show ?thesis
    using neq by (auto simp: SetAxis_def Let_def axis_state_set_axis_half dom_keep)
qed

lemma set_axis_half_other:
  "m_buf (set_axis_half dev key s) = m_buf dev"
  "m_buttons (set_axis_half dev key s) = m_buttons dev"
  "dom (m_axes (set_axis_half dev key s)) = dom (m_axes dev)"
  by (auto simp: set_axis_half_def split: option.splits)

lemma SetAxis_other:
  "m_buf (SetAxis dev entry val) = m_buf dev"
  "m_buttons (SetAxis dev entry val) = m_buttons dev"
  "dom (m_axes (SetAxis dev entry val)) = dom (m_axes dev)"
  by (simp_all add: SetAxis_def Let_def set_axis_half_other)

subsection \<open>The half values\<close>

text \<open>
  C5. The half-value functions satisfy hi(0) = 0 and lo(0) = 1, hi(0.5) = 0 and
  lo(0.5) = 0, hi(1) = 1 and lo(1) = 0, and over the domain [0,1] hi is monotonically
  non-decreasing and lo is monotonically non-increasing.
\<close>

theorem axis_halves_profile:
  "axis_hi 0 = 0 \<and> axis_lo 0 = 1 \<and> axis_hi 0.5 = 0 \<and> axis_lo 0.5 = 0 \<and>
   axis_hi 1 = 1 \<and> axis_lo 1 = 0 \<and>
   (\<forall>a b. 0 \<le> a \<and> a \<le> b \<and> b \<le> 1 \<longrightarrow> axis_hi a \<le> axis_hi b \<and> axis_lo b \<le> axis_lo a)"
  by (auto simp: axis_hi_def axis_lo_def max_def min_def)

theorem axis_halves_profile_witness:
  "(0::real) \<le> 0.25 \<and> (0.25::real) \<le> 0.75 \<and> (0.75::real) \<le> 1 \<and>
   axis_hi 0.25 \<le> axis_hi 0.75 \<and> axis_lo 0.75 \<le> axis_lo 0.25 \<and>
   axis_hi 0.25 = 0 \<and> axis_hi 0.75 = 0.5 \<and> axis_lo 0.25 = 0.5 \<and> axis_lo 0.75 = 0"
proof -
  have mono: "axis_hi 0.25 \<le> axis_hi 0.75 \<and> axis_lo 0.75 \<le> axis_lo 0.25"
    using axis_halves_profile by simp
  have vals: "axis_hi 0.25 = 0 \<and> axis_hi 0.75 = 0.5 \<and> axis_lo 0.25 = 0.5 \<and> axis_lo 0.75 = 0"
    by (simp add: axis_hi_def axis_lo_def)
  show ?thesis using mono vals by simp
qed

text \<open>Unfolding the constructor on a concrete key.\<close>

lemmas ctor_defs = PipeDevice_new_def s_button_tokens_def s_shoulder_tokens_def
  s_axis_tokens_def add_stick_def AddAxis_def add_button_def PipeInput_new_def SetState_def

subsection \<open>The device after construction\<close>

text \<open>
  C10. At construction, before any command is processed, every button holds the state a
  new input starts with, both halves of each shoulder axis (L and R) are 0.0, and both
  halves of each stick axis component (MAIN X, MAIN Y, C X, C Y) are 0.5, so that both
  halves of a stick component are non-zero until the first SET for it. No other key
  exists and the line buffer is empty.
\<close>

theorem PipeDevice_new_initial:
  "map (button_state (PipeDevice_new dflt)) s_button_tokens = replicate (length s_button_tokens) (Some dflt) \<and>
   dom (m_buttons (PipeDevice_new dflt)) = set s_button_tokens \<and>
   map (axis_state (PipeDevice_new dflt)) [''L +'', ''L -'', ''R +'', ''R -'']
     = [Some 0.0, Some 0.0, Some 0.0, Some 0.0] \<and>
   map (axis_state (PipeDevice_new dflt))
     [''MAIN X +'', ''MAIN X -'', ''MAIN Y +'', ''MAIN Y -'',
      ''C X +'', ''C X -'', ''C Y +'', ''C Y -'']
     = [Some 0.5, Some 0.5, Some 0.5, Some 0.5, Some 0.5, Some 0.5, Some 0.5, Some 0.5] \<and>
   dom (m_axes (PipeDevice_new dflt)) =
     {''L +'', ''L -'', ''R +'', ''R -'', ''MAIN X +'', ''MAIN X -'', ''MAIN Y +'', ''MAIN Y -'',
      ''C X +'', ''C X -'', ''C Y +'', ''C Y -''} \<and>
   m_buf (PipeDevice_new dflt) = []"
proof -
  let ?dev = "PipeDevice_new dflt"
  have b: "map (button_state ?dev) s_button_tokens = replicate (length s_button_tokens) (Some dflt)"
    by (simp add: ctor_defs button_state_def GetState_def)
  have bd: "dom (m_buttons ?dev) = set s_button_tokens"
    by (auto simp: ctor_defs)
  have sh: "map (axis_state ?dev) [''L +'', ''L -'', ''R +'', ''R -'']
     = [Some 0.0, Some 0.0, Some 0.0, Some 0.0]"
    by (simp add: ctor_defs axis_state_def GetState_def)
  have st: "map (axis_state ?dev)
     [''MAIN X +'', ''MAIN X -'', ''MAIN Y +'', ''MAIN Y -'',
      ''C X +'', ''C X -'', ''C Y +'', ''C Y -'']
     = [Some 0.5, Some 0.5, Some 0.5, Some 0.5, Some 0.5, Some 0.5, Some 0.5, Some 0.5]"
    by (simp add: ctor_defs axis_state_def GetState_def)
  have ad: "dom (m_axes ?dev) =
     {''L +'', ''L -'', ''R +'', ''R -'', ''MAIN X +'', ''MAIN X -'', ''MAIN Y +'', ''MAIN Y -'',
      ''C X +'', ''C X -'', ''C Y +'', ''C Y -''}"
    by (auto simp: ctor_defs)
  have bf: "m_buf ?dev = []"
    by (simp add: ctor_defs)
  show ?thesis using b bd sh st ad bf by blast
qed

subsection \<open>The axis-set operation\<close>

text \<open>
  C3. For every axis key and every input value, SetAxis stores
  hi = max(0, c - 0.5) * 2 into the positive half (if that key exists) and
  lo = (0.5 - min(0.5, c)) * 2 into the negative half (if that key exists), where c is
  the input clamped into [0,1]; every other entry of the axis map is left as it was. In
  particular an input below 0 acts as 0 and an input above 1 acts as 1.
\<close>

theorem SetAxis_stores_clamped_halves:
  "let c = (if val < 0 then 0 else if 1 < val then 1 else val) in
         (entry @ '' +'' \<in> dom (m_axes dev) \<longrightarrow>
            axis_state (SetAxis dev entry val) (entry @ '' +'') = Some (max 0 (c - 0.5) * 2)) \<and>
         (entry @ '' -'' \<in> dom (m_axes dev) \<longrightarrow>
            axis_state (SetAxis dev entry val) (entry @ '' -'') = Some ((0.5 - min 0.5 c) * 2)) \<and>
         (\<forall>k. k \<notin> dom (m_axes dev) \<or> (k \<noteq> entry @ '' +'' \<and> k \<noteq> entry @ '' -'') \<longrightarrow>
            m_axes (SetAxis dev entry val) k = m_axes dev k) \<and>
         (val < 0 \<longrightarrow> SetAxis dev entry val = SetAxis dev entry 0) \<and>
         (1 < val \<longrightarrow> SetAxis dev entry val = SetAxis dev entry 1)"
proof -
  define c where "c = (if val < 0 then 0 else if 1 < val then 1 else val)"
  have cl: "Clamp val 0 1 = c"
    by (simp add: Clamp_def c_def max_def min_def)
  have neq: "entry @ '' +'' \<noteq> entry @ '' -''"
    by (rule plus_key_neq_minus_key)
  have hi: "entry @ '' +'' \<in> dom (m_axes dev) \<longrightarrow>
            axis_state (SetAxis dev entry val) (entry @ '' +'') = Some (max 0 (c - 0.5) * 2)"
    using neq by (auto simp: axis_state_SetAxis cl axis_hi_def)
  have lo: "entry @ '' -'' \<in> dom (m_axes dev) \<longrightarrow>
            axis_state (SetAxis dev entry val) (entry @ '' -'') = Some ((0.5 - min 0.5 c) * 2)"
    by (auto simp: axis_state_SetAxis cl axis_lo_def)
  have other: "\<forall>k. k \<notin> dom (m_axes dev) \<or> (k \<noteq> entry @ '' +'' \<and> k \<noteq> entry @ '' -'') \<longrightarrow>
            m_axes (SetAxis dev entry val) k = m_axes dev k"
    using neq by (auto simp: SetAxis_def Let_def set_axis_half_def split: option.splits)
  have below: "val < 0 \<longrightarrow> SetAxis dev entry val = SetAxis dev entry 0"
    by (simp add: SetAxis_def Clamp_def max_def min_def)
  have above: "1 < val \<longrightarrow> SetAxis dev entry val = SetAxis dev entry 1"
    by (simp add: SetAxis_def Clamp_def max_def min_def)
  show ?thesis
    unfolding Let_def c_def [symmetric] using hi lo other below above by blast
qed

theorem SetAxis_stores_clamped_halves_witness:
  "''L +'' \<in> dom (m_axes (PipeDevice_new 0)) \<and> ''L -'' \<in> dom (m_axes (PipeDevice_new 0)) \<and>
   (1::real) < 1.5 \<and>
   axis_state (SetAxis (PipeDevice_new 0) ''L'' 1.5) ''L +'' = Some 1 \<and>
   axis_state (SetAxis (PipeDevice_new 0) ''L'' 1.5) ''L -'' = Some 0 \<and>
   m_axes (SetAxis (PipeDevice_new 0) ''L'' 1.5) ''R +'' = m_axes (PipeDevice_new 0) ''R +'' \<and>
   SetAxis (PipeDevice_new 0) ''L'' 1.5 = SetAxis (PipeDevice_new 0) ''L'' 1 \<and>
   (-2::real) < 0 \<and>
   axis_state (SetAxis (PipeDevice_new 0) ''L'' (-2)) ''L +'' = Some 0 \<and>
   axis_state (SetAxis (PipeDevice_new 0) ''L'' (-2)) ''L -'' = Some 1 \<and>
   SetAxis (PipeDevice_new 0) ''L'' (-2) = SetAxis (PipeDevice_new 0) ''L'' 0"
proof -
  have keys: "''L +'' \<in> dom (m_axes (PipeDevice_new 0))" "''L -'' \<in> dom (m_axes (PipeDevice_new 0))"
    by (simp_all add: ctor_defs)
  note inst = SetAxis_stores_clamped_halves [of "1.5" "''L''" "PipeDevice_new 0", unfolded Let_def]
  have hi: "axis_state (SetAxis (PipeDevice_new 0) ''L'' 1.5) ''L +'' = Some 1"
    using inst [THEN conjunct1] keys by simp
  have lo: "axis_state (SetAxis (PipeDevice_new 0) ''L'' 1.5) ''L -'' = Some 0"
    using inst [THEN conjunct2, THEN conjunct1] keys by simp
  have other: "m_axes (SetAxis (PipeDevice_new 0) ''L'' 1.5) ''R +'' = m_axes (PipeDevice_new 0) ''R +''"
    using inst [THEN conjunct2, THEN conjunct2, THEN conjunct1, rule_format, of "''R +''"] by simp
  have bound: "SetAxis (PipeDevice_new 0) ''L'' 1.5 = SetAxis (PipeDevice_new 0) ''L'' 1"
    using inst [THEN conjunct2, THEN conjunct2, THEN conjunct2, THEN conjunct2] by simp
  note neg = SetAxis_stores_clamped_halves [of "-2" "''L''" "PipeDevice_new 0", unfolded Let_def]
  have hi': "axis_state (SetAxis (PipeDevice_new 0) ''L'' (-2)) ''L +'' = Some 0"
    using neg [THEN conjunct1] keys by simp
  have lo': "axis_state (SetAxis (PipeDevice_new 0) ''L'' (-2)) ''L -'' = Some 1"
    using neg [THEN conjunct2, THEN conjunct1] keys by simp
  have bound': "SetAxis (PipeDevice_new 0) ''L'' (-2) = SetAxis (PipeDevice_new 0) ''L'' 0"
    using neg [THEN conjunct2, THEN conjunct2, THEN conjunct2, THEN conjunct1] by simp
  have order: "(1::real) < 1.5" "(-2::real) < 0"
    by simp_all
  show ?thesis
    by (intro conjI; fact)
qed

text \<open>
  C4. For an axis whose two halves exist, after one SetAxis on it at most one of the two
  stored half values is non-zero: the computed hi and lo are never both positive.
\<close>

theorem SetAxis_one_half_zero:
  assumes "entry @ '' +'' \<in> dom (m_axes dev)" and "entry @ '' -'' \<in> dom (m_axes dev)"
  shows "\<exists>hi lo. axis_state (SetAxis dev entry val) (entry @ '' +'') = Some hi \<and>
                 axis_state (SetAxis dev entry val) (entry @ '' -'') = Some lo \<and>
                 0 \<le> hi \<and> 0 \<le> lo \<and> (hi = 0 \<or> lo = 0)"
proof -
  have neq: "entry @ '' +'' \<noteq> entry @ '' -''"
    by (rule plus_key_neq_minus_key)
  have hi: "axis_state (SetAxis dev entry val) (entry @ '' +'') = Some (axis_hi (Clamp val 0 1))"
    using assms neq by (auto simp: axis_state_SetAxis)
  have lo: "axis_state (SetAxis dev entry val) (entry @ '' -'') = Some (axis_lo (Clamp val 0 1))"
    using assms by (auto simp: axis_state_SetAxis)
  have "0 \<le> axis_hi v \<and> 0 \<le> axis_lo v \<and> (axis_hi v = 0 \<or> axis_lo v = 0)" for v
    by (simp add: axis_hi_def axis_lo_def max_def min_def)
  with hi lo show ?thesis by blast
qed

theorem SetAxis_one_half_zero_witness:
  "''MAIN X +'' \<in> dom (m_axes (PipeDevice_new 0)) \<and>
   ''MAIN X -'' \<in> dom (m_axes (PipeDevice_new 0)) \<and>
   (\<exists>hi lo. axis_state (SetAxis (PipeDevice_new 0) ''MAIN X'' 0.25) ''MAIN X +'' = Some hi \<and>
                 axis_state (SetAxis (PipeDevice_new 0) ''MAIN X'' 0.25) ''MAIN X -'' = Some lo \<and>
                 0 \<le> hi \<and> 0 \<le> lo \<and> (hi = 0 \<or> lo = 0))"
proof -
  have keys: "''MAIN X +'' \<in> dom (m_axes (PipeDevice_new 0))"
    "''MAIN X -'' \<in> dom (m_axes (PipeDevice_new 0))"
    by (simp_all add: ctor_defs)
  show ?thesis
    using keys SetAxis_one_half_zero [of "''MAIN X''" "PipeDevice_new 0" "0.25"]
    by simp
qed

subsection \<open>Commands\<close>

text \<open>Unfolding the number reader and the axis arithmetic on concrete input.\<close>

lemmas number_defs = StringToDouble_def stream_extract_double_def read_sign_def
  read_fraction_def read_exponent_def isdigit_def isspace_def decimal_value_def
  digit_value_def scale10_def

lemmas axis_defs = SetAxis_def set_axis_half_def Clamp_def axis_hi_def axis_lo_def

lemma m_buf_press_or_release: "m_buf (press_or_release dev ts) = m_buf dev"
  by (simp add: press_or_release_def split: option.splits)


lemma m_buf_ParseCommand: "m_buf (ParseCommand dev c) = m_buf dev"
  by (simp add: ParseCommand_def Let_def SetAxis_other m_buf_press_or_release)

text \<open>
  C1 as stated: on a new device the line "SET MAIN 1.0" would leave "MAIN X +" at 1.0 and
  "MAIN X -" at 0.0. It does not: a SET with one value addresses the keys "MAIN +" and
  "MAIN -", which do not exist, and both halves of MAIN X stay at 0.5.
\<close>

theorem set_main_one_value_counterexample:
  "axis_state (ParseCommand (PipeDevice_new 0) ''SET MAIN 1.0'') ''MAIN X +'' = Some 0.5 \<and>
   axis_state (ParseCommand (PipeDevice_new 0) ''SET MAIN 1.0'') ''MAIN X -'' = Some 0.5 \<and>
   \<not> (axis_state (ParseCommand (PipeDevice_new 0) ''SET MAIN 1.0'') ''MAIN X +'' = Some 1.0 \<and>
      axis_state (ParseCommand (PipeDevice_new 0) ''SET MAIN 1.0'') ''MAIN X -'' = Some 0.0)"
  by (simp add: ParseCommand_def SplitString_def Let_def number_defs axis_defs ctor_defs
      axis_state_def GetState_def)

text \<open>
  C1, amended. On a new device the line "SET MAIN 1.0" changes nothing, so "MAIN X +" and
  "MAIN X -" both keep 0.5. The stick is set by the form with two values:
  "SET MAIN 1.0 0.5" leaves "MAIN X +" at 1.0 and "MAIN X -" at 0.0. The form with one
  value sets a shoulder axis: "SET L 1.0" leaves "L +" at 1.0 (from (1.0/2)+0.5 = 1.0)
  and "L -" at 0.0.
\<close>

theorem set_main_needs_two_values:
  "ParseCommand (PipeDevice_new dflt) ''SET MAIN 1.0'' = PipeDevice_new dflt \<and>
   axis_state (ParseCommand (PipeDevice_new dflt) ''SET MAIN 1.0'') ''MAIN X +'' = Some 0.5 \<and>
   axis_state (ParseCommand (PipeDevice_new dflt) ''SET MAIN 1.0'') ''MAIN X -'' = Some 0.5 \<and>
   axis_state (ParseCommand (PipeDevice_new dflt) ''SET MAIN 1.0 0.5'') ''MAIN X +'' = Some 1.0 \<and>
   axis_state (ParseCommand (PipeDevice_new dflt) ''SET MAIN 1.0 0.5'') ''MAIN X -'' = Some 0.0 \<and>
   axis_state (ParseCommand (PipeDevice_new dflt) ''SET L 1.0'') ''L +'' = Some 1.0 \<and>
   axis_state (ParseCommand (PipeDevice_new dflt) ''SET L 1.0'') ''L -'' = Some 0.0"
proof -
  let ?dev = "PipeDevice_new dflt"
  have tokens3: "SplitString ''SET MAIN 1.0'' CHR '' '' = [''SET'', ''MAIN'', ''1.0'']"
    by (simp add: SplitString_def)
  have absent: "m_axes ?dev ''MAIN +'' = None" "m_axes ?dev ''MAIN -'' = None"
    by (simp_all add: ctor_defs)
  have same: "ParseCommand ?dev ''SET MAIN 1.0'' = ?dev"
    by (simp add: ParseCommand_def tokens3 Let_def SetAxis_def set_axis_half_def absent)
  have init: "axis_state ?dev ''MAIN X +'' = Some 0.5" "axis_state ?dev ''MAIN X -'' = Some 0.5"
    by (simp_all add: ctor_defs axis_state_def GetState_def)
  have stick: "axis_state (ParseCommand ?dev ''SET MAIN 1.0 0.5'') ''MAIN X +'' = Some 1.0"
    "axis_state (ParseCommand ?dev ''SET MAIN 1.0 0.5'') ''MAIN X -'' = Some 0.0"
    by (simp_all add: ParseCommand_def SplitString_def Let_def number_defs axis_defs ctor_defs
        axis_state_def GetState_def)
  have shoulder: "axis_state (ParseCommand ?dev ''SET L 1.0'') ''L +'' = Some 1.0"
    "axis_state (ParseCommand ?dev ''SET L 1.0'') ''L -'' = Some 0.0"
    by (simp_all add: ParseCommand_def SplitString_def Let_def number_defs axis_defs ctor_defs
        axis_state_def GetState_def)
  show ?thesis
    using init stick shoulder by (simp add: same)
qed

text \<open>
  C2 as stated: a PRESS or RELEASE line with 3 or 4 tokens would be ignored. The line
  "PRESS A B" has 3 tokens and presses button A.
\<close>

theorem press_with_extra_token_counterexample:
  "SplitString ''PRESS A B'' CHR '' '' = [''PRESS'', ''A'', ''B''] \<and>
   button_state (PipeDevice_new 0) ''A'' = Some 0 \<and>
   button_state (ParseCommand (PipeDevice_new 0) ''PRESS A B'') ''A'' = Some 1 \<and>
   ParseCommand (PipeDevice_new 0) ''PRESS A B'' \<noteq> PipeDevice_new 0"
proof -
  have t: "SplitString ''PRESS A B'' CHR '' '' = [''PRESS'', ''A'', ''B'']"
    by (simp add: SplitString_def)
  have before: "button_state (PipeDevice_new 0) ''A'' = Some 0"
    by (simp add: ctor_defs button_state_def GetState_def)
  have after: "button_state (ParseCommand (PipeDevice_new 0) ''PRESS A B'') ''A'' = Some 1"
    by (simp add: ParseCommand_def t press_or_release_def ctor_defs button_state_def GetState_def)
  from before after have "ParseCommand (PipeDevice_new 0) ''PRESS A B'' \<noteq> PipeDevice_new 0"
    by (metis option.inject zero_neq_one)
  with t before after show ?thesis by simp
qed

text \<open>
  C2, amended. For every line whose first token is PRESS or RELEASE: when the line has
  2, 3 or 4 tokens and the second token names a known button, that button is set to 1.0
  (PRESS) or 0.0 (RELEASE), whatever follows the second token; a line with fewer than 2
  or more than 4 tokens, or with an unknown button name, leaves the device unchanged. In
  every case the other buttons, the axes and the line buffer are unchanged.
\<close>

theorem press_release_any_arity:
  assumes "SplitString command CHR '' '' = verb # args"
    and "verb = ''PRESS'' \<or> verb = ''RELEASE''"
  shows "ParseCommand dev command =
           (if 1 \<le> length args \<and> length args \<le> 3 \<and> hd args \<in> dom (m_buttons dev)
            then dev\<lparr>m_buttons := (m_buttons dev)
                   (hd args \<mapsto> SetState (the (m_buttons dev (hd args)))
                                  (if verb = ''PRESS'' then 1.0 else 0.0))\<rparr>
            else dev) \<and>
         (1 \<le> length args \<and> length args \<le> 3 \<and> hd args \<in> dom (m_buttons dev) \<longrightarrow>
            button_state (ParseCommand dev command) (hd args)
              = Some (if verb = ''PRESS'' then 1.0 else 0.0)) \<and>
         (\<forall>k. k \<noteq> hd args \<longrightarrow> m_buttons (ParseCommand dev command) k = m_buttons dev k) \<and>
         m_axes (ParseCommand dev command) = m_axes dev \<and>
         m_buf (ParseCommand dev command) = m_buf dev"
proof -
  let ?new = "dev\<lparr>m_buttons := (m_buttons dev)
                   (hd args \<mapsto> SetState (the (m_buttons dev (hd args)))
                                  (if verb = ''PRESS'' then 1.0 else 0.0))\<rparr>"
  define ok where "ok \<longleftrightarrow> 1 \<le> length args \<and> length args \<le> 3"
  have eq: "ParseCommand dev command =
           (if ok \<and> hd args \<in> dom (m_buttons dev) then ?new else dev)"
  proof (cases ok)
    case True
    then have ne: "args \<noteq> []"
      unfolding ok_def by (cases args) simp_all
    from True have len: "\<not> (length (verb # args) < 2 \<or> 4 < length (verb # args))"
      unfolding ok_def by (cases args) simp_all
    have "ParseCommand dev command = press_or_release dev (verb # args)"
      using assms(2) len by (simp add: ParseCommand_def assms(1) Let_def)
    also have "\<dots> = (if hd args \<in> dom (m_buttons dev) then ?new else dev)"
      using ne by (cases args) (auto simp: press_or_release_def split: option.splits)
    finally show ?thesis using True by simp
  next
    case False
    then have "length (verb # args) < 2 \<or> 4 < length (verb # args)"
      unfolding ok_def by (cases args) auto
    then have "ParseCommand dev command = dev"
      by (simp add: ParseCommand_def assms(1) Let_def)
    then show ?thesis using False by simp
  qed
  have cond: "(1 \<le> length args \<and> length args \<le> 3 \<and> hd args \<in> dom (m_buttons dev))
      \<longleftrightarrow> (ok \<and> hd args \<in> dom (m_buttons dev))"
    unfolding ok_def by blast
  show ?thesis
    unfolding eq cond by (auto simp: button_state_def GetState_def SetState_def)
qed

theorem press_release_any_arity_witness:
  "SplitString ''PRESS A B'' CHR '' '' = ''PRESS'' # [''A'', ''B''] \<and>
   hd [''A'', ''B''] \<in> dom (m_buttons (PipeDevice_new 0)) \<and>
   button_state (ParseCommand (PipeDevice_new 0) ''PRESS A B'') ''A'' = Some 1 \<and>
   m_buttons (ParseCommand (PipeDevice_new 0) ''PRESS A B'') ''B''
     = m_buttons (PipeDevice_new 0) ''B'' \<and>
   m_axes (ParseCommand (PipeDevice_new 0) ''PRESS A B'') = m_axes (PipeDevice_new 0)"
proof -
  have t: "SplitString ''PRESS A B'' CHR '' '' = ''PRESS'' # [''A'', ''B'']"
    by (simp add: SplitString_def)
  have known: "hd [''A'', ''B''] \<in> dom (m_buttons (PipeDevice_new 0))"
    by (simp add: ctor_defs)
  note inst = press_release_any_arity [OF t, of "PipeDevice_new 0"]
  have pressed: "button_state (ParseCommand (PipeDevice_new 0) ''PRESS A B'') ''A'' = Some 1"
    using inst [THEN conjunct2, THEN conjunct1] known by simp
  have others: "m_buttons (ParseCommand (PipeDevice_new 0) ''PRESS A B'') ''B''
     = m_buttons (PipeDevice_new 0) ''B''"
    using inst [THEN conjunct2, THEN conjunct2, THEN conjunct1] by simp
  have axes: "m_axes (ParseCommand (PipeDevice_new 0) ''PRESS A B'') = m_axes (PipeDevice_new 0)"
    using inst [THEN conjunct2, THEN conjunct2, THEN conjunct2, THEN conjunct1] by simp
  show ?thesis using t known pressed others axes by simp
qed

subsection \<open>Splitting and the polling loops\<close>

declare dequeue_commands.simps [simp del]
declare scan_message.simps [simp del]




lemma str_find_None: "str_find xs c = None \<longleftrightarrow> c \<notin> set xs"
  by (induction xs) auto

lemma str_find_first: "c \<notin> set l \<Longrightarrow> str_find (l @ c # rest) c = Some (length l)"
  by (induction l) auto

lemma set_axis_half_buf_update:
  "set_axis_half (dev\<lparr>m_buf := b\<rparr>) k s = (set_axis_half dev k s)\<lparr>m_buf := b\<rparr>"
  by (simp add: set_axis_half_def split: option.splits)

lemma SetAxis_buf_update: "SetAxis (dev\<lparr>m_buf := b\<rparr>) e v = (SetAxis dev e v)\<lparr>m_buf := b\<rparr>"
  by (simp add: SetAxis_def Let_def set_axis_half_buf_update)

lemma press_or_release_buf_update:
  "press_or_release (dev\<lparr>m_buf := b\<rparr>) ts = (press_or_release dev ts)\<lparr>m_buf := b\<rparr>"
  by (simp add: press_or_release_def split: option.splits)

lemma ParseCommand_buf_update:
  "ParseCommand (dev\<lparr>m_buf := b\<rparr>) c = (ParseCommand dev c)\<lparr>m_buf := b\<rparr>"
  by (simp add: ParseCommand_def Let_def SetAxis_buf_update press_or_release_buf_update)

lemma dequeue_no_newline:
  "CHR ''\<newline>'' \<notin> set (m_buf dev) \<Longrightarrow> dequeue_commands dev = dev"
  by (subst dequeue_commands.simps) (simp add: str_find_None [THEN iffD2])

lemma dequeue_step:
  assumes "CHR ''\<newline>'' \<notin> set l" and "m_buf dev = l @ CHR ''\<newline>'' # rest"
  shows "dequeue_commands dev = dequeue_commands ((ParseCommand dev l)\<lparr>m_buf := rest\<rparr>)"
proof -
  have "str_find (m_buf dev) CHR ''\<newline>'' = Some (length l)"
    using assms by (simp add: str_find_first)
  then show ?thesis
    by (subst dequeue_commands.simps) (simp add: assms(2) m_buf_ParseCommand)
qed

lemma fold_ParseCommand_buf_update:
  "fold (\<lambda>l d. ParseCommand d l) ls (dev\<lparr>m_buf := b\<rparr>)
     = (fold (\<lambda>l d. ParseCommand d l) ls dev)\<lparr>m_buf := b\<rparr>"
  by (induction ls arbitrary: dev) (simp_all add: ParseCommand_buf_update)

lemma m_buf_fold_ParseCommand: "m_buf (fold (\<lambda>l d. ParseCommand d l) ls dev) = m_buf dev"
  by (induction ls arbitrary: dev) (simp_all add: m_buf_ParseCommand)

lemma dequeue_lines:
  assumes "\<forall>l\<in>set ls. CHR ''\<newline>'' \<notin> set l" and "CHR ''\<newline>'' \<notin> set rest"
    and "m_buf dev = concat (map (\<lambda>l. l @ [CHR ''\<newline>'']) ls) @ rest"
  shows "dequeue_commands dev = (fold (\<lambda>l d. ParseCommand d l) ls dev)\<lparr>m_buf := rest\<rparr>"
  using assms
proof (induction ls arbitrary: dev)
  case Nil
  then have "dequeue_commands dev = dev" by (simp add: dequeue_no_newline)
  with Nil show ?case by simp
next
  case (Cons l ls)
  let ?more = "concat (map (\<lambda>l. l @ [CHR ''\<newline>'']) ls) @ rest"
  let ?dev1 = "(ParseCommand dev l)\<lparr>m_buf := ?more\<rparr>"
  have "dequeue_commands dev = dequeue_commands ?dev1"
    using Cons.prems by (intro dequeue_step) simp_all
  also have "\<dots> = (fold (\<lambda>l d. ParseCommand d l) ls ?dev1)\<lparr>m_buf := rest\<rparr>"
    using Cons.prems by (intro Cons.IH) simp_all
  also have "fold (\<lambda>l d. ParseCommand d l) ls ?dev1
      = (fold (\<lambda>l d. ParseCommand d l) ls (ParseCommand dev l))\<lparr>m_buf := ?more\<rparr>"
    by (rule fold_ParseCommand_buf_update)
  finally show ?case by simp
qed

lemma read_pending_eq:
  "read_pending buf reads = buf @ concat (takeWhile (\<lambda>chunk. chunk \<noteq> []) reads)"
  by (induction reads arbitrary: buf) auto

lemma device_eqI:
  fixes d d' :: PipeDevice
  assumes "m_buf d = m_buf d'" and "m_buttons d = m_buttons d'" and "m_axes d = m_axes d'"
  shows "d = d'"
  using assms by (intro PipeDevice.equality) simp_all
















subsection \<open>Polling the byte stream\<close>




text \<open>
  C7. In the byte-stream build the bytes after the last newline are retained across
  update calls. When a poll leaves the unfinished fragment rest behind its complete
  lines, the fragment has no effect in that poll; when the next poll delivers the
  remaining bytes b and the newline, the joined line rest @ b is executed once, as one
  command, and a further poll without data executes nothing more. The witness runs
  "PRE" followed by "SS A" and a newline.
\<close>

theorem UpdateInput_joins_fragments:
  assumes "\<forall>l\<in>set ls. CHR ''\<newline>'' \<notin> set l" and "CHR ''\<newline>'' \<notin> set rest"
    and "CHR ''\<newline>'' \<notin> set b"
    and "read_pending (m_buf dev) reads = concat (map (\<lambda>l. l @ [CHR ''\<newline>'']) ls) @ rest"
  shows "UpdateInput dev reads = (fold (\<lambda>l d. ParseCommand d l) ls dev)\<lparr>m_buf := rest\<rparr> \<and>
         UpdateInput (UpdateInput dev reads) [b @ ''\<newline>'']
           = (ParseCommand (fold (\<lambda>l d. ParseCommand d l) ls dev) (rest @ b))\<lparr>m_buf := []\<rparr> \<and>
         UpdateInput (UpdateInput (UpdateInput dev reads) [b @ ''\<newline>'']) []
           = (ParseCommand (fold (\<lambda>l d. ParseCommand d l) ls dev) (rest @ b))\<lparr>m_buf := []\<rparr>"
proof -
  let ?dev1 = "fold (\<lambda>l d. ParseCommand d l) ls dev"
  let ?line = "rest @ b"
  let ?done = "(ParseCommand ?dev1 ?line)\<lparr>m_buf := []\<rparr>"
  let ?polled = "dev\<lparr>m_buf := read_pending (m_buf dev) reads\<rparr>"
  have "dequeue_commands ?polled = (fold (\<lambda>l d. ParseCommand d l) ls ?polled)\<lparr>m_buf := rest\<rparr>"
    using assms by (intro dequeue_lines) simp_all
  then have first: "UpdateInput dev reads = ?dev1\<lparr>m_buf := rest\<rparr>"
    by (simp add: UpdateInput_def fold_ParseCommand_buf_update)
  have "UpdateInput (UpdateInput dev reads) [b @ ''\<newline>'']
      = UpdateInput (?dev1\<lparr>m_buf := rest\<rparr>) [b @ ''\<newline>'']"
    by (simp only: first)
  also have "\<dots> = dequeue_commands (?dev1\<lparr>m_buf := ?line @ ''\<newline>''\<rparr>)"
    by (simp add: UpdateInput_def read_pending_eq)
  also have "\<dots>
      = dequeue_commands ((ParseCommand (?dev1\<lparr>m_buf := ?line @ ''\<newline>''\<rparr>) ?line)\<lparr>m_buf := []\<rparr>)"
    using assms by (intro dequeue_step) simp_all
  also have "\<dots> = ?done"
    by (simp add: dequeue_no_newline ParseCommand_buf_update)
  finally have second: "UpdateInput (UpdateInput dev reads) [b @ ''\<newline>''] = ?done" .
  have third: "UpdateInput ?done [] = ?done"
    by (simp add: UpdateInput_def dequeue_no_newline)
  have last: "UpdateInput (UpdateInput (UpdateInput dev reads) [b @ ''\<newline>'']) [] = ?done"
    by (simp only: second third)
  show ?thesis
    by (intro conjI; fact)
qed

theorem UpdateInput_joins_fragments_witness:
  "CHR ''\<newline>'' \<notin> set ''PRESS B'' \<and>
   CHR ''\<newline>'' \<notin> set ''PRE'' \<and> CHR ''\<newline>'' \<notin> set ''SS A'' \<and>
   read_pending (m_buf (PipeDevice_new 0)) [''PRESS B\<newline>PRE'']
     = concat (map (\<lambda>l. l @ [CHR ''\<newline>'']) [''PRESS B'']) @ ''PRE'' \<and>
   button_state (PipeDevice_new 0) ''A'' = Some 0 \<and>
   m_buf (UpdateInput (PipeDevice_new 0) [''PRESS B\<newline>PRE'']) = ''PRE'' \<and>
   button_state (UpdateInput (PipeDevice_new 0) [''PRESS B\<newline>PRE'']) ''B'' = Some 1 \<and>
   button_state (UpdateInput (PipeDevice_new 0) [''PRESS B\<newline>PRE'']) ''A'' = Some 0 \<and>
   UpdateInput (UpdateInput (PipeDevice_new 0) [''PRESS B\<newline>PRE'']) [''SS A\<newline>'']
     = ParseCommand (ParseCommand (PipeDevice_new 0) ''PRESS B'') ''PRESS A'' \<and>
   button_state
     (UpdateInput (UpdateInput (PipeDevice_new 0) [''PRESS B\<newline>PRE'']) [''SS A\<newline>'']) ''A''
     = Some 1 \<and>
   UpdateInput (PipeDevice_new 0) [''PRE''] = (PipeDevice_new 0)\<lparr>m_buf := ''PRE''\<rparr> \<and>
   UpdateInput (UpdateInput (PipeDevice_new 0) [''PRE'']) [''SS A\<newline>'']
     = ParseCommand (PipeDevice_new 0) ''PRESS A''"
proof -
  let ?dev = "PipeDevice_new 0"
  let ?devB = "ParseCommand ?dev ''PRESS B''"
  have empty: "m_buf ?dev = []"
    by (simp add: ctor_defs)
  have before: "button_state ?dev ''A'' = Some 0"
    by (simp add: ctor_defs button_state_def GetState_def)
  have pressedB: "button_state ?devB ''B'' = Some 1" and notA: "button_state ?devB ''A'' = Some 0"
    by (simp_all add: ParseCommand_def SplitString_def press_or_release_def ctor_defs
        button_state_def GetState_def SetState_def)
  have pressedA: "button_state (ParseCommand ?devB ''PRESS A'') ''A'' = Some 1"
    by (simp add: ParseCommand_def SplitString_def press_or_release_def ctor_defs
        button_state_def GetState_def SetState_def)
  have nl: "\<forall>l\<in>set [''PRESS B'']. CHR ''\<newline>'' \<notin> set l"
    "CHR ''\<newline>'' \<notin> set ''PRE''" "CHR ''\<newline>'' \<notin> set ''SS A''"
    "read_pending (m_buf ?dev) [''PRESS B\<newline>PRE'']
       = concat (map (\<lambda>l. l @ [CHR ''\<newline>'']) [''PRESS B'']) @ ''PRE''"
    by (simp_all add: empty)
  have line: "CHR ''\<newline>'' \<notin> set ''PRESS B''"
    by simp
  note inst = UpdateInput_joins_fragments [OF nl]
  have first: "UpdateInput ?dev [''PRESS B\<newline>PRE''] = ?devB\<lparr>m_buf := ''PRE''\<rparr>"
    using inst [THEN conjunct1] by simp
  have kept: "m_buf (UpdateInput ?dev [''PRESS B\<newline>PRE'']) = ''PRE''"
    by (simp add: first)
  have seenB: "button_state (UpdateInput ?dev [''PRESS B\<newline>PRE'']) ''B'' = Some 1"
    using pressedB by (simp add: first button_state_def)
  have unseenA: "button_state (UpdateInput ?dev [''PRESS B\<newline>PRE'']) ''A'' = Some 0"
    using notA by (simp add: first button_state_def)
  have whole: "(ParseCommand ?devB ''PRESS A'')\<lparr>m_buf := []\<rparr> = ParseCommand ?devB ''PRESS A''"
    by (rule device_eqI) (simp_all add: m_buf_ParseCommand empty)
  have second: "UpdateInput (UpdateInput ?dev [''PRESS B\<newline>PRE'']) [''SS A\<newline>'']
      = ParseCommand ?devB ''PRESS A''"
    using inst [THEN conjunct2, THEN conjunct1] by (simp add: whole)
  have seenA: "button_state
     (UpdateInput (UpdateInput ?dev [''PRESS B\<newline>PRE'']) [''SS A\<newline>'']) ''A'' = Some 1"
    by (simp only: second pressedA)
  have nl0: "\<forall>l\<in>set ([] :: string list). CHR ''\<newline>'' \<notin> set l"
    "read_pending (m_buf ?dev) [''PRE''] = concat (map (\<lambda>l. l @ [CHR ''\<newline>'']) []) @ ''PRE''"
    by (simp_all add: empty)
  note plain = UpdateInput_joins_fragments [OF nl0(1) nl(2) nl(3) nl0(2)]
  have plain1: "UpdateInput ?dev [''PRE''] = ?dev\<lparr>m_buf := ''PRE''\<rparr>"
    using plain [THEN conjunct1] by simp
  have whole0: "(ParseCommand ?dev ''PRESS A'')\<lparr>m_buf := []\<rparr> = ParseCommand ?dev ''PRESS A''"
    by (rule device_eqI) (simp_all add: m_buf_ParseCommand empty)
  have plain2: "UpdateInput (UpdateInput ?dev [''PRE'']) [''SS A\<newline>'']
      = ParseCommand ?dev ''PRESS A''"
    using plain [THEN conjunct2, THEN conjunct1] by (simp add: whole0)
  show ?thesis
    by (intro conjI; fact)
qed

text \<open>
  C8. A malformed line leaves the device unchanged: a line whose token count is outside
  [2,4], a line whose first token is none of PRESS, RELEASE and SET, a PRESS or RELEASE
  naming an unknown button, a SET naming an axis none of whose keys exists. ParseCommand
  has no error result, so nothing is signalled; the line that follows is processed as if
  the malformed one had not been there, also through the buffer of one poll.
\<close>

theorem malformed_line_ignored:
  assumes "SplitString line CHR '' '' = tokens"
    and "length tokens < 2 \<or> 4 < length tokens \<or>
         tokens ! 0 \<notin> {''PRESS'', ''RELEASE'', ''SET''} \<or>
         (tokens ! 0 \<in> {''PRESS'', ''RELEASE''} \<and> tokens ! 1 \<notin> dom (m_buttons dev)) \<or>
         (tokens ! 0 = ''SET'' \<and> length tokens = 3 \<and>
            tokens ! 1 @ '' +'' \<notin> dom (m_axes dev) \<and> tokens ! 1 @ '' -'' \<notin> dom (m_axes dev)) \<or>
         (tokens ! 0 = ''SET'' \<and> length tokens = 4 \<and>
            tokens ! 1 @ '' X +'' \<notin> dom (m_axes dev) \<and> tokens ! 1 @ '' X -'' \<notin> dom (m_axes dev) \<and>
            tokens ! 1 @ '' Y +'' \<notin> dom (m_axes dev) \<and> tokens ! 1 @ '' Y -'' \<notin> dom (m_axes dev))"
  shows "ParseCommand dev line = dev \<and>
         ParseCommand (ParseCommand dev line) next_line = ParseCommand dev next_line \<and>
         (m_buf dev = [] \<and> CHR ''\<newline>'' \<notin> set line \<longrightarrow>
            UpdateInput dev [line @ ''\<newline>'' @ later] = UpdateInput dev [later])"
proof -
  have absent: "SetAxis dev e v = dev"
    if "e @ '' +'' \<notin> dom (m_axes dev)" and "e @ '' -'' \<notin> dom (m_axes dev)" for e v
    using that by (auto simp: SetAxis_def Let_def set_axis_half_def split: option.splits)
  have same: "ParseCommand dev line = dev"
    using assms(2)
  proof (elim disjE)
    assume "length tokens < 2"
    then show ?thesis by (simp add: ParseCommand_def assms(1))
  next
    assume "4 < length tokens"
    then show ?thesis by (simp add: ParseCommand_def assms(1))
  next
    assume "tokens ! 0 \<notin> {''PRESS'', ''RELEASE'', ''SET''}"
    then show ?thesis by (simp add: ParseCommand_def assms(1) Let_def)
  next
    assume "tokens ! 0 \<in> {''PRESS'', ''RELEASE''} \<and> tokens ! 1 \<notin> dom (m_buttons dev)"
    then show ?thesis
      by (auto simp: ParseCommand_def assms(1) Let_def press_or_release_def split: option.splits)
  next
    assume "tokens ! 0 = ''SET'' \<and> length tokens = 3 \<and>
            tokens ! 1 @ '' +'' \<notin> dom (m_axes dev) \<and> tokens ! 1 @ '' -'' \<notin> dom (m_axes dev)"
    then show ?thesis
      by (simp add: ParseCommand_def assms(1) Let_def absent)
  next
    assume "tokens ! 0 = ''SET'' \<and> length tokens = 4 \<and>
            tokens ! 1 @ '' X +'' \<notin> dom (m_axes dev) \<and> tokens ! 1 @ '' X -'' \<notin> dom (m_axes dev) \<and>
            tokens ! 1 @ '' Y +'' \<notin> dom (m_axes dev) \<and> tokens ! 1 @ '' Y -'' \<notin> dom (m_axes dev)"
    then show ?thesis
      using absent [of "tokens ! 1 @ '' X''"] absent [of "tokens ! 1 @ '' Y''"]
      by (simp add: ParseCommand_def assms(1) Let_def)
  qed
  have following: "ParseCommand (ParseCommand dev line) next_line = ParseCommand dev next_line"
    by (simp only: same)
  have poll: "m_buf dev = [] \<and> CHR ''\<newline>'' \<notin> set line \<longrightarrow>
      UpdateInput dev [line @ ''\<newline>'' @ later] = UpdateInput dev [later]"
  proof (intro impI, elim conjE)
    assume empty: "m_buf dev = []" and nl: "CHR ''\<newline>'' \<notin> set line"
    let ?polled = "dev\<lparr>m_buf := line @ ''\<newline>'' @ later\<rparr>"
    have "UpdateInput dev [line @ ''\<newline>'' @ later] = dequeue_commands ?polled"
      by (simp add: UpdateInput_def read_pending_eq empty)
    also have "\<dots> = dequeue_commands ((ParseCommand ?polled line)\<lparr>m_buf := later\<rparr>)"
      using nl by (intro dequeue_step) simp_all
    also have "(ParseCommand ?polled line)\<lparr>m_buf := later\<rparr> = dev\<lparr>m_buf := later\<rparr>"
      by (simp add: ParseCommand_buf_update same)
    also have "dequeue_commands (dev\<lparr>m_buf := later\<rparr>) = UpdateInput dev [later]"
      by (simp add: UpdateInput_def read_pending_eq empty)
    finally show "UpdateInput dev [line @ ''\<newline>'' @ later] = UpdateInput dev [later]" .
  qed
  show ?thesis
    by (intro conjI; fact)
qed


theorem malformed_line_ignored_witness:
  "SplitString ''JUMP A'' CHR '' '' = [''JUMP'', ''A''] \<and>
   [''JUMP'', ''A''] ! 0 \<notin> {''PRESS'', ''RELEASE'', ''SET''} \<and>
   ParseCommand (PipeDevice_new 0) ''JUMP A'' = PipeDevice_new 0 \<and>
   SplitString ''PRESS Q'' CHR '' '' = [''PRESS'', ''Q''] \<and>
   [''PRESS'', ''Q''] ! 1 \<notin> dom (m_buttons (PipeDevice_new 0)) \<and>
   ParseCommand (PipeDevice_new 0) ''PRESS Q'' = PipeDevice_new 0 \<and>
   SplitString ''SET Q 0.3'' CHR '' '' = [''SET'', ''Q'', ''0.3''] \<and>
   ParseCommand (PipeDevice_new 0) ''SET Q 0.3'' = PipeDevice_new 0 \<and>
   SplitString ''SET C 0.1 0.2 0.3'' CHR '' '' = [''SET'', ''C'', ''0.1'', ''0.2'', ''0.3''] \<and>
   4 < length [''SET'', ''C'', ''0.1'', ''0.2'', ''0.3''] \<and>
   ParseCommand (PipeDevice_new 0) ''SET C 0.1 0.2 0.3'' = PipeDevice_new 0 \<and>
   m_buf (PipeDevice_new 0) = [] \<and> CHR ''\<newline>'' \<notin> set ''SET C 0.1 0.2 0.3'' \<and>
   UpdateInput (PipeDevice_new 0) [''SET C 0.1 0.2 0.3\<newline>PRESS A\<newline>'']
     = UpdateInput (PipeDevice_new 0) [''PRESS A\<newline>''] \<and>
   button_state (UpdateInput (PipeDevice_new 0) [''SET C 0.1 0.2 0.3\<newline>PRESS A\<newline>'']) ''A''
     = Some 1"
proof -
  let ?dev = "PipeDevice_new 0"
  have t1: "SplitString ''JUMP A'' CHR '' '' = [''JUMP'', ''A'']"
    and t2: "SplitString ''PRESS Q'' CHR '' '' = [''PRESS'', ''Q'']"
    and t3: "SplitString ''SET Q 0.3'' CHR '' '' = [''SET'', ''Q'', ''0.3'']"
    and t4: "SplitString ''SET C 0.1 0.2 0.3'' CHR '' '' = [''SET'', ''C'', ''0.1'', ''0.2'', ''0.3'']"
    by (simp_all add: SplitString_def)
  have verb: "[''JUMP'', ''A''] ! 0 \<notin> {''PRESS'', ''RELEASE'', ''SET''}"
    by simp
  have button: "[''PRESS'', ''Q''] ! 1 \<notin> dom (m_buttons ?dev)"
    by (simp add: ctor_defs)
  have axis: "''Q +'' \<notin> dom (m_axes ?dev)" "''Q -'' \<notin> dom (m_axes ?dev)"
    by (simp_all add: ctor_defs)
  have count: "4 < length [''SET'', ''C'', ''0.1'', ''0.2'', ''0.3'']"
    by simp
  have empty: "m_buf ?dev = []"
    by (simp add: ctor_defs)
  have nl: "CHR ''\<newline>'' \<notin> set ''SET C 0.1 0.2 0.3''"
    by simp
  have jump: "ParseCommand ?dev ''JUMP A'' = ?dev"
    using malformed_line_ignored [OF t1, of ?dev] verb by simp
  have press: "ParseCommand ?dev ''PRESS Q'' = ?dev"
    using malformed_line_ignored [OF t2, of ?dev] button by simp
  have set3: "ParseCommand ?dev ''SET Q 0.3'' = ?dev"
    using malformed_line_ignored [OF t3, of ?dev] axis by simp
  note five = malformed_line_ignored [OF t4, of ?dev _ "''PRESS A\<newline>''"]
  have set5: "ParseCommand ?dev ''SET C 0.1 0.2 0.3'' = ?dev"
    using five by simp
  have poll: "UpdateInput ?dev [''SET C 0.1 0.2 0.3\<newline>PRESS A\<newline>'']
     = UpdateInput ?dev [''PRESS A\<newline>'']"
    using five empty by simp
  have "dequeue_commands (?dev\<lparr>m_buf := ''PRESS A\<newline>''\<rparr>)
      = (fold (\<lambda>l d. ParseCommand d l) [''PRESS A''] (?dev\<lparr>m_buf := ''PRESS A\<newline>''\<rparr>))
          \<lparr>m_buf := []\<rparr>"
    by (intro dequeue_lines) simp_all
  then have "UpdateInput ?dev [''PRESS A\<newline>''] = (ParseCommand ?dev ''PRESS A'')\<lparr>m_buf := []\<rparr>"
    by (simp add: UpdateInput_def empty ParseCommand_buf_update)
  moreover have "button_state (ParseCommand ?dev ''PRESS A'') ''A'' = Some 1"
    by (simp add: ParseCommand_def SplitString_def press_or_release_def ctor_defs
        button_state_def GetState_def SetState_def)
  ultimately have after: "button_state
      (UpdateInput ?dev [''SET C 0.1 0.2 0.3\<newline>PRESS A\<newline>'']) ''A'' = Some 1"
    by (simp add: poll button_state_def)
  show ?thesis
    by (intro conjI; fact)
qed

subsection \<open>Polling messages\<close>

lemma scan_message_tail:
  "CHR ''\<newline>'' \<notin> set tail \<Longrightarrow> scan_message dev (pre @ tail) prev (length pre) = dev"
proof (induction tail arbitrary: pre)
  case Nil
  show ?case by (subst scan_message.simps) simp
next
  case (Cons c tail)
  have "scan_message dev (pre @ c # tail) prev (length pre)
      = scan_message dev ((pre @ [c]) @ tail) prev (length (pre @ [c]))"
    using Cons.prems by (subst scan_message.simps) auto
  also have "\<dots> = dev"
    using Cons.prems by (intro Cons.IH) simp
  finally show ?case .
qed

lemma scan_message_line:
  "CHR ''\<newline>'' \<notin> set l \<Longrightarrow>
   scan_message dev (pre @ cur @ l @ CHR ''\<newline>'' # x) (length pre) (length pre + length cur)
     = scan_message (ParseCommand dev (cur @ l)) (pre @ cur @ l @ CHR ''\<newline>'' # x)
         (length pre + length cur + length l + 1) (length pre + length cur + length l + 1)"
proof (induction l arbitrary: cur)
  case Nil
  have at: "(pre @ cur @ CHR ''\<newline>'' # x) ! (length pre + length cur) = CHR ''\<newline>''"
    by (simp add: nth_append)
  show ?case
    by (subst scan_message.simps) (simp add: at)
next
  case (Cons c l)
  have at: "(pre @ cur @ (c # l) @ CHR ''\<newline>'' # x) ! (length pre + length cur) = c"
    by (simp add: nth_append)
  have "scan_message dev (pre @ cur @ (c # l) @ CHR ''\<newline>'' # x) (length pre)
          (length pre + length cur)
      = scan_message dev (pre @ (cur @ [c]) @ l @ CHR ''\<newline>'' # x) (length pre)
          (length pre + length (cur @ [c]))"
    using Cons.prems by (subst scan_message.simps) (auto simp: at)
  also have "\<dots> = scan_message (ParseCommand dev ((cur @ [c]) @ l))
         (pre @ (cur @ [c]) @ l @ CHR ''\<newline>'' # x)
         (length pre + length (cur @ [c]) + length l + 1)
         (length pre + length (cur @ [c]) + length l + 1)"
    using Cons.prems by (intro Cons.IH) simp
  finally show ?case by simp
qed

lemma scan_message_lines:
  assumes "\<forall>l\<in>set ls. CHR ''\<newline>'' \<notin> set l" and "CHR ''\<newline>'' \<notin> set tail"
  shows "scan_message dev (pre @ concat (map (\<lambda>l. l @ [CHR ''\<newline>'']) ls) @ tail)
           (length pre) (length pre)
         = fold (\<lambda>l d. ParseCommand d l) ls dev"
  using assms
proof (induction ls arbitrary: pre dev)
  case Nil
  then show ?case by (simp add: scan_message_tail)
next
  case (Cons l ls)
  let ?x = "concat (map (\<lambda>l. l @ [CHR ''\<newline>'']) ls) @ tail"
  have "scan_message dev (pre @ [] @ l @ CHR ''\<newline>'' # ?x) (length pre) (length pre + length ([] :: string))
      = scan_message (ParseCommand dev ([] @ l)) (pre @ [] @ l @ CHR ''\<newline>'' # ?x)
          (length pre + length ([] :: string) + length l + 1)
          (length pre + length ([] :: string) + length l + 1)"
    using Cons.prems by (intro scan_message_line) simp
  then have "scan_message dev (pre @ l @ CHR ''\<newline>'' # ?x) (length pre) (length pre)
      = scan_message (ParseCommand dev l) ((pre @ l @ [CHR ''\<newline>'']) @ ?x)
          (length (pre @ l @ [CHR ''\<newline>''])) (length (pre @ l @ [CHR ''\<newline>'']))"
    by simp
  also have "\<dots> = fold (\<lambda>l d. ParseCommand d l) ls (ParseCommand dev l)"
    using Cons.prems by (intro Cons.IH) simp_all
  finally show ?case by simp
qed

text \<open>
  C9. In the message build each update call takes at most one message from the socket
  (none when the queue is empty), executes every command of that message that is ended
  by a newline, from first to last, and drops the bytes after the last newline: they
  change neither the device nor its buffer, and the result is the one of the message
  without them, so no later call sees them.
\<close>

theorem UpdateInput_ZMQ_one_message:
  "UpdateInput_ZMQ dev [] = (dev, []) \<and>
   ((\<forall>l\<in>set ls. CHR ''\<newline>'' \<notin> set l) \<and> CHR ''\<newline>'' \<notin> set tail \<longrightarrow>
      UpdateInput_ZMQ dev ((concat (map (\<lambda>l. l @ [CHR ''\<newline>'']) ls) @ tail) # sock)
        = (fold (\<lambda>l d. ParseCommand d l) ls dev, sock) \<and>
      UpdateInput_ZMQ dev ((concat (map (\<lambda>l. l @ [CHR ''\<newline>'']) ls) @ tail) # sock)
        = UpdateInput_ZMQ dev (concat (map (\<lambda>l. l @ [CHR ''\<newline>'']) ls) # sock) \<and>
      m_buf (fst (UpdateInput_ZMQ dev
                    ((concat (map (\<lambda>l. l @ [CHR ''\<newline>'']) ls) @ tail) # sock))) = m_buf dev)"
proof (intro conjI impI, goal_cases)
  case 1
  show ?case by (simp add: UpdateInput_ZMQ_def zmq_recvmsg_def)
next
  case 2
  then show ?case
    using scan_message_lines [of ls tail dev "[]"]
    by (simp add: UpdateInput_ZMQ_def zmq_recvmsg_def)
next
  case 3
  then show ?case
    using scan_message_lines [of ls tail dev "[]"] scan_message_lines [of ls "[]" dev "[]"]
    by (simp add: UpdateInput_ZMQ_def zmq_recvmsg_def)
next
  case 4
  then show ?case
    using scan_message_lines [of ls tail dev "[]"]
    by (simp add: UpdateInput_ZMQ_def zmq_recvmsg_def m_buf_fold_ParseCommand)
qed


theorem UpdateInput_ZMQ_one_message_witness:
  "CHR ''\<newline>'' \<notin> set ''PRESS A'' \<and> CHR ''\<newline>'' \<notin> set ''PRESS B'' \<and>
   CHR ''\<newline>'' \<notin> set ''PRE'' \<and>
   UpdateInput_ZMQ (PipeDevice_new 0) [''PRESS A\<newline>PRESS B\<newline>PRE'', ''SS X\<newline>'']
     = (ParseCommand (ParseCommand (PipeDevice_new 0) ''PRESS A'') ''PRESS B'', [''SS X\<newline>'']) \<and>
   UpdateInput_ZMQ (ParseCommand (ParseCommand (PipeDevice_new 0) ''PRESS A'') ''PRESS B'')
       [''SS X\<newline>'']
     = (ParseCommand (ParseCommand (PipeDevice_new 0) ''PRESS A'') ''PRESS B'', []) \<and>
   map (button_state (ParseCommand (ParseCommand (PipeDevice_new 0) ''PRESS A'') ''PRESS B''))
       [''A'', ''B'', ''X'']
     = [Some 1, Some 1, Some 0]"
proof -
  let ?dev = "PipeDevice_new 0"
  let ?dev2 = "ParseCommand (ParseCommand ?dev ''PRESS A'') ''PRESS B''"
  have lines: "\<forall>l\<in>set [''PRESS A'', ''PRESS B'']. CHR ''\<newline>'' \<notin> set l"
    and tail: "CHR ''\<newline>'' \<notin> set ''PRE''"
    by simp_all
  have first: "UpdateInput_ZMQ ?dev [''PRESS A\<newline>PRESS B\<newline>PRE'', ''SS X\<newline>'']
      = (?dev2, [''SS X\<newline>''])"
    using UpdateInput_ZMQ_one_message [of ?dev "[''PRESS A'', ''PRESS B'']" "''PRE''" "[''SS X\<newline>'']",
        THEN conjunct2] lines tail
    by simp
  have each: "CHR ''\<newline>'' \<notin> set ''PRESS A''" "CHR ''\<newline>'' \<notin> set ''PRESS B''"
    by simp_all
  have unknown: "ParseCommand ?dev2 ''SS X'' = ?dev2"
    by (simp add: ParseCommand_def [of ?dev2] SplitString_def)
  have second: "UpdateInput_ZMQ ?dev2 [''SS X\<newline>''] = (?dev2, [])"
    using UpdateInput_ZMQ_one_message [of ?dev2 "[''SS X'']" "[]" "[]", THEN conjunct2]
    by (simp add: unknown)
  have buttons: "map (button_state ?dev2) [''A'', ''B'', ''X''] = [Some 1, Some 1, Some 0]"
    by (simp add: ParseCommand_def SplitString_def press_or_release_def ctor_defs
        button_state_def GetState_def SetState_def)
  show ?thesis
    by (intro conjI; fact)
qed

end
